theory Spec2Isabelle
  imports Complex_Main
begin

section \<open>Data model of the adaptive traffic light (src/adaptive_tls.py)\<close>

text \<open>
  Python floats are modelled as \<^typ>\<open>real\<close>; vehicle, lane and direction identifiers are
  strings as in the source. Exceptions are values of \<open>py_error\<close>.
\<close>

datatype py_error = AttributeError string | ZeroDivisionError | KeyError string | ValueError

record pattern =
  peak_start :: real
  peak_end :: real
  consistency :: real

text \<open>
  One entry of \<open>self.vehicles\<close>. A fresh entry is created with \<open>'patterns': None\<close>;
  \<open>_detect_patterns\<close> later stores a (possibly empty) list.
\<close>

record vehicle_record =
  crossings :: "(real \<times> string) list"
  patterns :: "pattern list option"

type_synonym vehicle_store = "string \<rightharpoonup> vehicle_record"

text \<open>
  What the simulation (the \<open>traci\<close> module) answers during one tick, for the traffic light
  the engine was built for.
\<close>

record traci =
  getControlledLanes :: "string list"
  getLastStepVehicleIDs :: "string \<Rightarrow> string list"
  getDistance :: "string \<Rightarrow> real"
  getTypeID :: "string \<Rightarrow> string"
  getTime :: real
  getPhase :: int
  getNextSwitch :: real

text \<open>
  The class calls four methods on \<open>self\<close> that it does not define. They are parameters of
  the model: \<open>None\<close> (or \<open>False\<close>) means the attribute does not exist and the call raises
  AttributeError. The two query methods return a value; the two command methods are
  recorded as the command they stand for.
\<close>

record helper_methods =
  get_approach_direction :: "(string \<Rightarrow> string) option"
  get_current_direction :: "(int \<Rightarrow> string) option"
  handle_emergency_defined :: bool
  set_phase_for_direction_defined :: bool

text \<open>The class exactly as written in src/adaptive_tls.py: none of the four is defined.\<close>

definition source_methods :: helper_methods where
  "source_methods =
     \<lparr>get_approach_direction = None, get_current_direction = None,
      handle_emergency_defined = False, set_phase_for_direction_defined = False\<rparr>"

text \<open>Commands the engine issues during a tick, in the order of the calls.\<close>

datatype command =
    HandleEmergency string
  | SetPhaseDuration real
  | SetPhaseForDirection string

section \<open>Model parameters set in \<open>__init__\<close>\<close>

definition weight_frequency :: real where "weight_frequency = 0.4"
definition weight_recency :: real where "weight_recency = 0.3"
definition weight_consistency :: real where "weight_consistency = 0.3"
definition density_weight :: real where "density_weight = 0.3"
definition time_boost_factor :: real where "time_boost_factor = 0.5"

section \<open>detect_vehicles\<close>

definition detect_vehicles :: "traci \<Rightarrow> string list" where
  "detect_vehicles env =
     concat (map (\<lambda>lane. filter (\<lambda>veh_id. getDistance env veh_id < 50)
                                 (getLastStepVehicleIDs env lane))
                 (getControlledLanes env))"

section \<open>Density-based clustering used by \<open>_detect_patterns\<close>\<close>

text \<open>
  Modelled from the spec: the clustering routine \<open>DBSCAN(eps, min_samples).fit\<close> is a
  library call whose code is not in the repository. It is modelled as the spec describes
  it: clusters are expanded from core points within a fixed radius, a core point needs a
  minimum neighbour count (the point itself included), unassigned points are noise.
  Labels are \<open>Some c\<close> for cluster \<open>c\<close> and \<open>None\<close> for noise (the library's -1).
\<close>

definition region_query :: "real \<Rightarrow> real list \<Rightarrow> nat \<Rightarrow> nat list" where
  "region_query eps X i = filter (\<lambda>j. \<bar>X ! i - X ! j\<bar> \<le> eps) [0..<length X]"

definition is_core :: "real \<Rightarrow> nat \<Rightarrow> real list \<Rightarrow> nat \<Rightarrow> bool" where
  "is_core eps min_samples X i = (min_samples \<le> length (region_query eps X i))"

lemma count_None_update:
  "i < length labels \<Longrightarrow> labels ! i = None \<Longrightarrow>
   length (filter (\<lambda>l. l = None) (labels[i := Some c])) < length (filter (\<lambda>l. l = None) labels)"
proof (induction labels arbitrary: i)
  case Nil
  then show ?case by simp
next
  case (Cons a labels)
  show ?case
  proof (cases i)
    case 0
    with Cons.prems show ?thesis by simp
  next
    case (Suc k)
    with Cons.prems have "k < length labels" "labels ! k = None" by simp_all
    from Cons.IH[OF this] Suc show ?thesis by simp
  qed
qed

text \<open>
  Depth-first expansion of cluster \<open>c\<close> from a stack of pending points (head = top): an
  unlabelled point takes the label, and a core point pushes its still unlabelled
  neighbours.
\<close>

function expand_cluster ::
  "real \<Rightarrow> nat \<Rightarrow> real list \<Rightarrow> nat \<Rightarrow> nat list \<Rightarrow> nat option list \<Rightarrow> nat option list" where
  "expand_cluster eps min_samples X c [] labels = labels"
| "expand_cluster eps min_samples X c (i # stack) labels =
     (if i < length labels \<and> labels ! i = None then
        expand_cluster eps min_samples X c
          ((if is_core eps min_samples X i
            then rev (filter (\<lambda>v. (labels[i := Some c]) ! v = None) (region_query eps X i))
            else []) @ stack)
          (labels[i := Some c])
      else expand_cluster eps min_samples X c stack labels)"
  by pat_completeness auto
termination
  by (relation "measures [\<lambda>(eps, m, X, c, stack, labels). length (filter (\<lambda>l. l = None) labels),
                          \<lambda>(eps, m, X, c, stack, labels). length stack]")
     (auto simp: count_None_update)

text \<open>
  The outer loop: every point in index order that is still unlabelled and is a core point
  starts the next cluster.
\<close>

fun dbscan_inner ::
  "real \<Rightarrow> nat \<Rightarrow> real list \<Rightarrow> nat list \<Rightarrow> nat \<Rightarrow> nat option list \<Rightarrow> nat option list" where
  "dbscan_inner eps min_samples X [] label_num labels = labels"
| "dbscan_inner eps min_samples X (i # rest) label_num labels =
     (if labels ! i \<noteq> None \<or> \<not> is_core eps min_samples X i
      then dbscan_inner eps min_samples X rest label_num labels
      else dbscan_inner eps min_samples X rest (label_num + 1)
             (expand_cluster eps min_samples X label_num [i] labels))"

definition dbscan_labels :: "real \<Rightarrow> nat \<Rightarrow> real list \<Rightarrow> nat option list" where
  "dbscan_labels eps min_samples X =
     dbscan_inner eps min_samples X [0..<length X] 0 (replicate (length X) None)"

section \<open>_detect_patterns\<close>

text \<open>\<open>set(dbscan.labels_)\<close> without -1: the distinct cluster labels, in ascending order.\<close>

definition label_values :: "nat option list \<Rightarrow> nat list" where
  "label_values labels = sort (remdups (List.map_filter id labels))"

text \<open>\<open>times[dbscan.labels_ == c]\<close>: the timestamps whose label is \<open>c\<close>, in input order.\<close>

definition cluster_members :: "real list \<Rightarrow> nat option list \<Rightarrow> nat \<Rightarrow> real list" where
  "cluster_members X labels c =
     map (\<lambda>i. X ! i) (filter (\<lambda>i. labels ! i = Some c) [0..<length X])"

definition np_mean :: "real list \<Rightarrow> real" where
  "np_mean xs = sum_list xs / real (length xs)"

text \<open>\<open>np.std\<close> with its default \<open>ddof=0\<close>: the population standard deviation.\<close>

definition np_std :: "real list \<Rightarrow> real" where
  "np_std xs = sqrt (sum_list (map (\<lambda>x. (x - np_mean xs)\<^sup>2) xs) / real (length xs))"

text \<open>\<open>np.min\<close> and \<open>np.max\<close> raise ValueError on an empty array.\<close>

definition make_pattern :: "real list \<Rightarrow> py_error + pattern" where
  "make_pattern cluster =
     (case cluster of
        [] \<Rightarrow> Inl ValueError
      | x # xs \<Rightarrow>
          Inr \<lparr>peak_start = fold min xs x,
               peak_end = fold max xs x,
               consistency = 1 / (np_std cluster + 1 / 1000000)\<rparr>)"

fun collect_patterns :: "real list list \<Rightarrow> py_error + pattern list" where
  "collect_patterns [] = Inr []"
| "collect_patterns (cluster # rest) =
     (case make_pattern cluster of
        Inl e \<Rightarrow> Inl e
      | Inr p \<Rightarrow>
          (case collect_patterns rest of
             Inl e \<Rightarrow> Inl e
           | Inr ps \<Rightarrow> Inr (p # ps)))"

definition pattern_clusters :: "real list \<Rightarrow> real list list" where
  "pattern_clusters timestamps =
     (let labels = dbscan_labels 300 3 timestamps
      in map (cluster_members timestamps labels) (label_values labels))"

text \<open>
  \<open>self.vehicles[veh_id]\<close> raises KeyError for an unknown vehicle, and the library's \<open>fit\<close>
  refuses an array without samples with ValueError.
\<close>

definition detect_patterns :: "vehicle_store \<Rightarrow> string \<Rightarrow> py_error + vehicle_store" where
  "detect_patterns vehicles veh_id =
     (case vehicles veh_id of
        None \<Rightarrow> Inl (KeyError veh_id)
      | Some hist \<Rightarrow>
          if crossings hist = [] then Inl ValueError
          else
            (case collect_patterns (pattern_clusters (map fst (crossings hist))) of
               Inl e \<Rightarrow> Inl e
             | Inr ps \<Rightarrow> Inr (vehicles(veh_id \<mapsto> hist\<lparr>patterns := Some ps\<rparr>))))"

section \<open>update_vehicle_history\<close>

definition update_vehicle_history ::
  "helper_methods \<Rightarrow> traci \<Rightarrow> vehicle_store \<Rightarrow> string \<Rightarrow> py_error + vehicle_store" where
  "update_vehicle_history M env vehicles veh_id =
     (case get_approach_direction M of
        None \<Rightarrow> Inl (AttributeError ''get_approach_direction'')
      | Some approach \<Rightarrow>
          (let direction = approach veh_id;
               time = getTime env;
               hist = (case vehicles veh_id of
                         None \<Rightarrow> \<lparr>crossings = [], patterns = None\<rparr>
                       | Some h \<Rightarrow> h);
               hist' = hist\<lparr>crossings := crossings hist @ [(time, direction)]\<rparr>;
               vehicles' = vehicles(veh_id \<mapsto> hist')
           in if length (crossings hist') mod 5 = 0
              then detect_patterns vehicles' veh_id
              else Inr vehicles'))"

section \<open>calculate_priority\<close>

definition recency_term :: "real \<Rightarrow> real \<Rightarrow> real" where
  "recency_term current_time last_time = 1 / (1 + (current_time - last_time) / 3600)"

text \<open>\<open>if hist['patterns']\<close> is false for \<open>None\<close> and for the empty list.\<close>

definition consistency_term :: "real \<Rightarrow> pattern list option \<Rightarrow> real" where
  "consistency_term current_time pats =
     (case pats of
        None \<Rightarrow> 0.5
      | Some [] \<Rightarrow> 0.5
      | Some (p # ps) \<Rightarrow>
          fold max (map consistency ps) (consistency p)
          / (1 + fold min (map (\<lambda>q. \<bar>current_time - peak_start q\<bar>) ps)
                          \<bar>current_time - peak_start p\<bar>))"

definition calculate_priority :: "traci \<Rightarrow> vehicle_store \<Rightarrow> string \<Rightarrow> py_error + real" where
  "calculate_priority env vehicles veh_id =
     (case vehicles veh_id of
        None \<Rightarrow> Inr 0
      | Some hist \<Rightarrow>
          if crossings hist = [] then Inr 0
          else
            (let n = length (crossings hist);
                 freq = ln (1 + real n);
                 last_time = fst (last (crossings hist));
                 current_time = getTime env
             in if 1 + (current_time - last_time) / 3600 = 0 then Inl ZeroDivisionError
                else Inr (weight_frequency * freq
                          + weight_recency * recency_term current_time last_time
                          + weight_consistency * consistency_term current_time (patterns hist))))"

section \<open>get_direction_weight\<close>

text \<open>The first loop: add the priority of every detected vehicle approaching in \<open>direction\<close>.\<close>

fun priority_sum ::
  "helper_methods \<Rightarrow> traci \<Rightarrow> vehicle_store \<Rightarrow> string \<Rightarrow> string list \<Rightarrow> real \<Rightarrow> py_error + real" where
  "priority_sum M env vehicles direction [] total_weight = Inr total_weight"
| "priority_sum M env vehicles direction (veh_id # rest) total_weight =
     (case get_approach_direction M of
        None \<Rightarrow> Inl (AttributeError ''get_approach_direction'')
      | Some approach \<Rightarrow>
          if approach veh_id = direction then
            (case calculate_priority env vehicles veh_id of
               Inl e \<Rightarrow> Inl e
             | Inr p \<Rightarrow> priority_sum M env vehicles direction rest (total_weight + p))
          else priority_sum M env vehicles direction rest total_weight)"

text \<open>The generator sum: the number of detected vehicles approaching in \<open>direction\<close>.\<close>

fun density_count :: "helper_methods \<Rightarrow> string \<Rightarrow> string list \<Rightarrow> py_error + nat" where
  "density_count M direction [] = Inr 0"
| "density_count M direction (veh_id # rest) =
     (case get_approach_direction M of
        None \<Rightarrow> Inl (AttributeError ''get_approach_direction'')
      | Some approach \<Rightarrow>
          (case density_count M direction rest of
             Inl e \<Rightarrow> Inl e
           | Inr k \<Rightarrow> Inr ((if approach veh_id = direction then 1 else 0) + k)))"

text \<open>\<open>self.vehicles.get(veh_id, {}).get('patterns')\<close> taken as a truth value.\<close>

definition has_patterns :: "vehicle_store \<Rightarrow> string \<Rightarrow> bool" where
  "has_patterns vehicles veh_id =
     (case vehicles veh_id of
        None \<Rightarrow> False
      | Some hist \<Rightarrow> (case patterns hist of None \<Rightarrow> False | Some ps \<Rightarrow> ps \<noteq> []))"

definition get_direction_weight ::
  "helper_methods \<Rightarrow> traci \<Rightarrow> vehicle_store \<Rightarrow> string \<Rightarrow> py_error + real" where
  "get_direction_weight M env vehicles direction =
     (let detected = detect_vehicles env
      in case priority_sum M env vehicles direction detected 0 of
           Inl e \<Rightarrow> Inl e
         | Inr total_weight \<Rightarrow>
             (case density_count M direction detected of
                Inl e \<Rightarrow> Inl e
              | Inr density \<Rightarrow>
                  (let total_weight = total_weight + density_weight * real density
                   in if list_ex (has_patterns vehicles) detected
                      then Inr (total_weight * (1 + time_boost_factor))
                      else Inr total_weight)))"

section \<open>control_logic\<close>

definition py_truediv :: "real \<Rightarrow> real \<Rightarrow> py_error + real" where
  "py_truediv a b = (if b = 0 then Inl ZeroDivisionError else Inr (a / b))"

definition directions :: "string list" where
  "directions = [''NS'', ''EW'']"

text \<open>The body of \<open>for d in directions\<close> for one direction.\<close>

definition phase_duration :: "real \<Rightarrow> real \<Rightarrow> py_error + real" where
  "phase_duration weight total_weight =
     (case py_truediv weight total_weight of
        Inl e \<Rightarrow> Inl e
      | Inr normalized_weight \<Rightarrow> Inr (max 15 (min 60 (30 * (0.5 + normalized_weight)))))"

fun phase_durations :: "(string \<times> real) list \<Rightarrow> real \<Rightarrow> py_error + (string \<times> real) list" where
  "phase_durations [] total_weight = Inr []"
| "phase_durations ((d, w) # rest) total_weight =
     (case phase_duration w total_weight of
        Inl e \<Rightarrow> Inl e
      | Inr dur \<Rightarrow>
          (case phase_durations rest total_weight of
             Inl e \<Rightarrow> Inl e
           | Inr durs \<Rightarrow> Inr ((d, dur) # durs)))"

text \<open>\<open>max(weights, key=weights.get)\<close>: the first key, in insertion order, of maximal weight.\<close>

fun max_key :: "string \<times> real \<Rightarrow> (string \<times> real) list \<Rightarrow> string" where
  "max_key (d, w) [] = d"
| "max_key (d, w) ((d', w') # rest) =
     (if w < w' then max_key (d', w') rest else max_key (d, w) rest)"

text \<open>
  The part of \<open>control_logic\<close> after the weights are known. The weights are the dictionary
  \<open>{'NS': ..., 'EW': ...}\<close> in insertion order.
\<close>

definition decide_phase ::
  "helper_methods \<Rightarrow> traci \<Rightarrow> real \<Rightarrow> real \<Rightarrow> py_error + command list" where
  "decide_phase M env w_ns w_ew =
     (let weights = [(''NS'', w_ns), (''EW'', w_ew)];
          total_weight = sum_list (map snd weights)
      in if total_weight > 0 then
           (case phase_durations weights total_weight of
              Inl e \<Rightarrow> Inl e
            | Inr durations \<Rightarrow>
                (case get_current_direction M of
                   None \<Rightarrow> Inl (AttributeError ''get_current_direction'')
                 | Some current \<Rightarrow>
                     (let current_direction = current (getPhase env)
                      in if current_direction \<in> set directions then
                           (let remaining = getNextSwitch env - getTime env
                            in case map_of durations current_direction of
                                 None \<Rightarrow> Inl (KeyError current_direction)
                               | Some dur \<Rightarrow>
                                   if remaining < dur
                                   then Inr [SetPhaseDuration (dur - remaining)]
                                   else Inr [])
                         else
                           (let next_direction = max_key (hd weights) (tl weights)
                            in if set_phase_for_direction_defined M
                               then Inr [SetPhaseForDirection next_direction]
                               else Inl (AttributeError ''set_phase_for_direction'')))))
         else Inr [])"

text \<open>
  One tick. The method writes nothing to \<open>self.vehicles\<close>; the store is returned as it
  was received, next to the commands issued.
\<close>

definition control_logic ::
  "helper_methods \<Rightarrow> traci \<Rightarrow> vehicle_store \<Rightarrow> py_error + (vehicle_store \<times> command list)" where
  "control_logic M env vehicles =
     (case find (\<lambda>veh_id. getTypeID env veh_id = ''emergency'') (detect_vehicles env) of
        Some veh_id \<Rightarrow>
          if handle_emergency_defined M
          then Inr (vehicles, [HandleEmergency veh_id])
          else Inl (AttributeError ''handle_emergency'')
      | None \<Rightarrow>
          (case get_direction_weight M env vehicles ''NS'' of
             Inl e \<Rightarrow> Inl e
           | Inr w_ns \<Rightarrow>
               (case get_direction_weight M env vehicles ''EW'' of
                  Inl e \<Rightarrow> Inl e
                | Inr w_ew \<Rightarrow>
                    (case decide_phase M env w_ns w_ew of
                       Inl e \<Rightarrow> Inl e
                     | Inr cmds \<Rightarrow> Inr (vehicles, cmds)))))"

section \<open>Reference formulations\<close>

text \<open>
  Observers of the store; the pattern of a cluster, the priority score, the direction
  weight and the clamp written as the specification states them (set minimum and maximum,
  sums over the approaching vehicles); and the invariant of the stores that
  \<open>update_vehicle_history\<close> builds under an advancing clock.
\<close>

definition crossings_of :: "vehicle_store \<Rightarrow> string \<Rightarrow> (real \<times> string) list" where
  "crossings_of vehicles veh_id = (case vehicles veh_id of None \<Rightarrow> [] | Some hist \<Rightarrow> crossings hist)"

definition patterns_of :: "vehicle_store \<Rightarrow> string \<Rightarrow> pattern list" where
  "patterns_of vehicles veh_id =
     (case vehicles veh_id of
        None \<Rightarrow> []
      | Some hist \<Rightarrow> (case patterns hist of None \<Rightarrow> [] | Some ps \<Rightarrow> ps))"

definition stored_patterns :: "vehicle_store \<Rightarrow> string \<Rightarrow> pattern list option" where
  "stored_patterns vehicles veh_id =
     (case vehicles veh_id of None \<Rightarrow> None | Some hist \<Rightarrow> patterns hist)"

definition spec_pattern :: "real list \<Rightarrow> pattern" where
  "spec_pattern cluster =
     \<lparr>peak_start = Min (set cluster),
      peak_end = Max (set cluster),
      consistency = 1 / (np_std cluster + 1 / 1000000)\<rparr>"

definition spec_consistency :: "real \<Rightarrow> pattern list \<Rightarrow> real" where
  "spec_consistency now pats =
     (if pats = [] then 0.5
      else Max (consistency ` set pats) / (1 + Min ((\<lambda>p. \<bar>now - peak_start p\<bar>) ` set pats)))"

definition spec_priority :: "real \<Rightarrow> (real \<times> string) list \<Rightarrow> pattern list \<Rightarrow> real" where
  "spec_priority now cs pats =
     (if cs = [] then 0
      else 0.4 * ln (1 + real (length cs))
           + 0.3 * (1 / (1 + (now - fst (last cs)) / 3600))
           + 0.3 * spec_consistency now pats)"

definition spec_direction_weight ::
  "(string \<Rightarrow> string) \<Rightarrow> traci \<Rightarrow> vehicle_store \<Rightarrow> string \<Rightarrow> real" where
  "spec_direction_weight approach env vehicles direction =
     (let approaching = filter (\<lambda>veh_id. approach veh_id = direction) (detect_vehicles env);
          base = (\<Sum>veh_id \<leftarrow> approaching.
                    spec_priority (getTime env) (crossings_of vehicles veh_id)
                      (patterns_of vehicles veh_id))
                 + 0.3 * real (length approaching)
      in if \<exists>veh_id \<in> set (detect_vehicles env). patterns_of vehicles veh_id \<noteq> []
         then base * 1.5 else base)"

definition spec_clamp :: "real \<Rightarrow> real \<Rightarrow> real \<Rightarrow> real" where
  "spec_clamp x lo hi = (if x < lo then lo else if hi < x then hi else x)"

definition store_inv :: "real \<Rightarrow> vehicle_store \<Rightarrow> bool" where
  "store_inv now vehicles =
     (\<forall>veh_id hist. vehicles veh_id = Some hist \<longrightarrow>
        (\<forall>c \<in> set (crossings hist). fst c \<le> now)
        \<and> (\<forall>ps. patterns hist = Some ps \<longrightarrow> (\<forall>p \<in> set ps. 0 \<le> consistency p)))"

text \<open>
  Stores the class can build: starting empty, the clock may advance, and a crossing may be
  recorded at the current time.
\<close>

inductive reachable_store :: "helper_methods \<Rightarrow> real \<Rightarrow> vehicle_store \<Rightarrow> bool"
  for M :: helper_methods where
  initial: "reachable_store M now Map.empty"
| clock: "reachable_store M now vehicles \<Longrightarrow> now \<le> later \<Longrightarrow> reachable_store M later vehicles"
| recorded:
    "reachable_store M now vehicles \<Longrightarrow> getTime env = now \<Longrightarrow>
     update_vehicle_history M env vehicles veh_id = Inr vehicles' \<Longrightarrow>
     reachable_store M now vehicles'"

section \<open>Invariants of the clustering loops\<close>

text \<open>
  A labelled point is supported when it is a core point or lies in the neighbourhood of a
  labelled core point. During an expansion every neighbour of a labelled core point is
  labelled or pending on the stack; between clusters every label below \<open>label_num\<close> has
  at least \<open>min_samples\<close> members.
\<close>

definition supported :: "real \<Rightarrow> nat \<Rightarrow> real list \<Rightarrow> nat option list \<Rightarrow> nat \<Rightarrow> bool" where
  "supported eps min_samples X labels j =
     (is_core eps min_samples X j
      \<or> (\<exists>k \<in> set (region_query eps X j). is_core eps min_samples X k \<and> labels ! k \<noteq> None))"

definition expand_inv ::
  "real \<Rightarrow> nat \<Rightarrow> real list \<Rightarrow> nat option list \<Rightarrow> nat list \<Rightarrow> bool" where
  "expand_inv eps min_samples X labels stack =
     (length labels = length X
      \<and> (\<forall>j < length X. labels ! j \<noteq> None \<and> is_core eps min_samples X j \<longrightarrow>
             (\<forall>k \<in> set (region_query eps X j). labels ! k \<noteq> None \<or> k \<in> set stack))
      \<and> (\<forall>j < length X. labels ! j \<noteq> None \<longrightarrow> supported eps min_samples X labels j)
      \<and> (\<forall>s \<in> set stack. s < length X \<and> supported eps min_samples X labels s))"

definition cluster_size :: "real list \<Rightarrow> nat option list \<Rightarrow> nat \<Rightarrow> nat" where
  "cluster_size X labels c = length (filter (\<lambda>j. labels ! j = Some c) [0..<length X])"

definition clusters_inv ::
  "real \<Rightarrow> nat \<Rightarrow> real list \<Rightarrow> nat \<Rightarrow> nat option list \<Rightarrow> bool" where
  "clusters_inv eps min_samples X label_num labels =
     (expand_inv eps min_samples X labels []
      \<and> (\<forall>j < length X. \<forall>l. labels ! j = Some l \<longrightarrow> l < label_num)
      \<and> (\<forall>l < label_num. min_samples \<le> cluster_size X labels l))"

section \<open>Example inputs\<close>

definition example_methods :: helper_methods where
  "example_methods =
     \<lparr>get_approach_direction =
        Some (\<lambda>veh_id. if veh_id = ''east1'' \<or> veh_id = ''east2'' then ''EW'' else ''NS''),
      get_current_direction =
        Some (\<lambda>phase. if phase = 0 then ''NS'' else if phase = 2 then ''EW'' else ''yellow''),
      handle_emergency_defined = True,
      set_phase_for_direction_defined = True\<rparr>"

definition example_tick :: "string list \<Rightarrow> real \<Rightarrow> int \<Rightarrow> real \<Rightarrow> traci" where
  "example_tick detected now phase next_switch =
     \<lparr>getControlledLanes = [''lane0''],
      getLastStepVehicleIDs = (\<lambda>lane. detected),
      getDistance = (\<lambda>veh_id. 10),
      getTypeID = (\<lambda>veh_id. if veh_id = ''ambulance'' then ''emergency'' else ''car''),
      getTime = now,
      getPhase = phase,
      getNextSwitch = next_switch\<rparr>"

definition example_store :: "real list \<Rightarrow> vehicle_store" where
  "example_store ts =
     [''car1'' \<mapsto> \<lparr>crossings = map (\<lambda>t. (t, ''NS'')) ts, patterns = None\<rparr>]"

definition example_store_with_pattern :: vehicle_store where
  "example_store_with_pattern =
     [''car1'' \<mapsto> \<lparr>crossings = [(0, ''NS'')],
                       patterns = Some [\<lparr>peak_start = 0, peak_end = 0, consistency = 1\<rparr>]\<rparr>]"

section \<open>The recency term\<close>

lemma recency_term_pos: "last_time \<le> now \<Longrightarrow> 0 < recency_term now last_time"
  by (simp add: recency_term_def add_pos_nonneg)

lemma recency_term_le_one: "last_time \<le> now \<Longrightarrow> recency_term now last_time \<le> 1"
  by (simp add: recency_term_def field_simps)

text \<open>
  C9. For a vehicle whose last crossing is not in the future (\<open>last_time \<le> now\<close>), the
  recency term \<open>1 / (1 + (now - last_time) / 3600)\<close> of \<open>calculate_priority\<close> lies in the
  half-open interval (0, 1], is exactly 1 at \<open>now = last_time\<close>, and is strictly smaller
  at every later time.
\<close>

theorem recency_in_unit_interval_and_decreasing:
  assumes "last_time \<le> now"
  shows "0 < recency_term now last_time \<and> recency_term now last_time \<le> 1
         \<and> recency_term last_time last_time = 1
         \<and> (\<forall>later. now < later \<longrightarrow> recency_term later last_time < recency_term now last_time)"
proof -
  have decreasing: "recency_term later last_time < recency_term now last_time"
    if "now < later" for later
  proof -
    have low: "0 < 1 + (now - last_time) / 3600" using assms by (simp add: add_pos_nonneg)
    have up: "1 + (now - last_time) / 3600 < 1 + (later - last_time) / 3600"
      using that by (simp add: divide_strict_right_mono)
    from low up have "0 < 1 + (later - last_time) / 3600" by linarith
    with low up show ?thesis
      unfolding recency_term_def by (simp add: frac_less2)
  qed
  have "recency_term last_time last_time = 1" by (simp add: recency_term_def)
  with decreasing recency_term_pos[OF assms] recency_term_le_one[OF assms]
  show ?thesis by blast
qed

theorem recency_in_unit_interval_and_decreasing_witness:
  "(0::real) \<le> 3600 \<and> recency_term 3600 0 = 1 / 2 \<and> recency_term 0 0 = 1
   \<and> recency_term 7200 0 < recency_term 3600 0"
  using recency_in_unit_interval_and_decreasing [of 0 3600]
  by (simp add: recency_term_def)

section \<open>The priority score\<close>

lemma fold_max_Max: "fold max xs (x::real) = Max (set (x # xs))"
  by (rule Max.set_eq_fold[symmetric])

lemma fold_min_Min: "fold min xs (x::real) = Min (set (x # xs))"
  by (rule Min.set_eq_fold[symmetric])

lemma consistency_term_spec:
  "consistency_term now pats = spec_consistency now (case pats of None \<Rightarrow> [] | Some ps \<Rightarrow> ps)"
proof (cases pats)
  case None
  then show ?thesis by (simp add: consistency_term_def spec_consistency_def)
next
  case (Some ps)
  show ?thesis
  proof (cases ps)
    case Nil
    with Some show ?thesis by (simp add: consistency_term_def spec_consistency_def)
  next
    case (Cons p qs)
    have "fold max (map consistency qs) (consistency p) = Max (consistency ` set (p # qs))"
      by (simp add: fold_max_Max)
    moreover have "fold min (map (\<lambda>q. \<bar>now - peak_start q\<bar>) qs) \<bar>now - peak_start p\<bar>
                   = Min ((\<lambda>q. \<bar>now - peak_start q\<bar>) ` set (p # qs))"
      by (simp add: fold_min_Min)
    ultimately show ?thesis
      using Some Cons by (simp add: consistency_term_def spec_consistency_def)
  qed
qed

lemma spec_consistency_nonneg:
  assumes "\<forall>p \<in> set pats. 0 \<le> consistency p"
  shows "0 \<le> spec_consistency now pats"
proof (cases "pats = []")
  case True
  then show ?thesis by (simp add: spec_consistency_def)
next
  case False
  then obtain p where p: "p \<in> set pats" by (cases pats) auto
  have "0 \<le> consistency p" using assms p by blast
  also have "consistency p \<le> Max (consistency ` set pats)" using p by simp
  finally have num: "0 \<le> Max (consistency ` set pats)" .
  have "0 \<le> Min ((\<lambda>p. \<bar>now - peak_start p\<bar>) ` set pats)"
    using False by (subst Min_ge_iff) auto
  then have "0 < 1 + Min ((\<lambda>p. \<bar>now - peak_start p\<bar>) ` set pats)" by linarith
  with num False show ?thesis by (simp add: spec_consistency_def)
qed

lemma spec_priority_nonneg:
  assumes "cs \<noteq> [] \<longrightarrow> fst (last cs) \<le> now" "\<forall>p \<in> set pats. 0 \<le> consistency p"
  shows "0 \<le> spec_priority now cs pats"
proof (cases "cs = []")
  case True
  then show ?thesis by (simp add: spec_priority_def)
next
  case False
  with assms have "fst (last cs) \<le> now" by simp
  then have "0 < 1 + (now - fst (last cs)) / 3600" by (simp add: add_pos_nonneg)
  then have "0 \<le> 1 / (1 + (now - fst (last cs)) / 3600)" by simp
  then have r: "0 \<le> 0.3 * (1 / (1 + (now - fst (last cs)) / 3600))"
    by (intro mult_nonneg_nonneg) simp_all
  have "0 \<le> ln (1 + real (length cs))" by simp
  then have f: "0 \<le> 0.4 * ln (1 + real (length cs))"
    by (intro mult_nonneg_nonneg) simp_all
  have c: "0 \<le> 0.3 * spec_consistency now pats"
    using spec_consistency_nonneg[OF assms(2), of now] by (intro mult_nonneg_nonneg) simp_all
  from f r c have "0 \<le> 0.4 * ln (1 + real (length cs))
           + 0.3 * (1 / (1 + (now - fst (last cs)) / 3600))
           + 0.3 * spec_consistency now pats" by linarith
  with False show ?thesis by (simp only: spec_priority_def if_False)
qed

lemma calculate_priority_spec:
  assumes "store_inv (getTime env) vehicles"
  shows "calculate_priority env vehicles veh_id
         = Inr (spec_priority (getTime env) (crossings_of vehicles veh_id) (patterns_of vehicles veh_id))"
proof (cases "vehicles veh_id")
  case None
  then show ?thesis
    by (simp add: calculate_priority_def spec_priority_def crossings_of_def)
next
  case (Some hist)
  show ?thesis
  proof (cases "crossings hist = []")
    case True
    with Some show ?thesis
      by (simp add: calculate_priority_def spec_priority_def crossings_of_def)
  next
    case False
    then have "last (crossings hist) \<in> set (crossings hist)" by simp
    with assms Some have "fst (last (crossings hist)) \<le> getTime env"
      unfolding store_inv_def by blast
    then have "0 < 1 + (getTime env - fst (last (crossings hist))) / 3600"
      by (simp add: add_pos_nonneg)
    then have "1 + (getTime env - fst (last (crossings hist))) / 3600 \<noteq> 0" by simp
    with Some False show ?thesis
      by (simp add: calculate_priority_def spec_priority_def crossings_of_def patterns_of_def
          recency_term_def consistency_term_spec weight_frequency_def weight_recency_def
          weight_consistency_def Let_def)
  qed
qed

lemma spec_priority_store_nonneg:
  assumes "store_inv now vehicles"
  shows "0 \<le> spec_priority now (crossings_of vehicles veh_id) (patterns_of vehicles veh_id)"
proof (rule spec_priority_nonneg)
  show "crossings_of vehicles veh_id \<noteq> [] \<longrightarrow> fst (last (crossings_of vehicles veh_id)) \<le> now"
  proof
    assume ne: "crossings_of vehicles veh_id \<noteq> []"
    then obtain hist where h: "vehicles veh_id = Some hist" "crossings_of vehicles veh_id = crossings hist"
      by (auto simp: crossings_of_def split: option.splits)
    with ne have "last (crossings hist) \<in> set (crossings hist)" by simp
    with assms h show "fst (last (crossings_of vehicles veh_id)) \<le> now"
      unfolding store_inv_def by auto
  qed
  show "\<forall>p \<in> set (patterns_of vehicles veh_id). 0 \<le> consistency p"
  proof
    fix p assume "p \<in> set (patterns_of vehicles veh_id)"
    then obtain hist ps where "vehicles veh_id = Some hist" "patterns hist = Some ps" "p \<in> set ps"
      unfolding patterns_of_def
      by (cases "vehicles veh_id"; cases "patterns (the (vehicles veh_id))") auto
    with assms show "0 \<le> consistency p" unfolding store_inv_def by blast
  qed
qed

section \<open>Density-based clustering: every cluster has at least min_samples members\<close>

subsection \<open>Neighbourhoods\<close>

lemma region_query_iff:
  "k \<in> set (region_query eps X j) \<longleftrightarrow> k < length X \<and> \<bar>X ! j - X ! k\<bar> \<le> eps"
  by (auto simp: region_query_def)

lemma region_query_sym:
  "k \<in> set (region_query eps X j) \<Longrightarrow> j < length X \<Longrightarrow> j \<in> set (region_query eps X k)"
  by (simp add: region_query_iff abs_minus_commute)

lemma region_query_self: "0 \<le> eps \<Longrightarrow> j < length X \<Longrightarrow> j \<in> set (region_query eps X j)"
  by (simp add: region_query_iff)

lemma distinct_region_query: "distinct (region_query eps X j)"
  by (simp add: region_query_def)

lemma three_neighbours_core:
  assumes "min_samples \<le> 3" "0 \<le> eps" "j < length X"
    and "i \<in> set (region_query eps X j)" "k \<in> set (region_query eps X j)"
    and "i \<noteq> j" "k \<noteq> j" "i \<noteq> k"
  shows "is_core eps min_samples X j"
proof -
  have "{i, j, k} \<subseteq> set (region_query eps X j)"
    using assms region_query_self by simp
  then have "card {i, j, k} \<le> card (set (region_query eps X j))"
    by (intro card_mono) simp_all
  moreover have "card {i, j, k} = 3" using assms by simp
  moreover have "card (set (region_query eps X j)) = length (region_query eps X j)"
    by (simp add: distinct_card distinct_region_query)
  ultimately show ?thesis using assms(1) by (simp add: is_core_def)
qed

lemma filter_length_mono:
  "(\<And>x. x \<in> set xs \<Longrightarrow> P x \<Longrightarrow> Q x) \<Longrightarrow> length (filter P xs) \<le> length (filter Q xs)"
  by (induction xs) auto

subsection \<open>Cluster expansion\<close>

lemma expand_cluster_length:
  "length (expand_cluster eps m X c stack labels) = length labels"
  by (induction eps m X c stack labels rule: expand_cluster.induct) simp_all

lemma expand_cluster_keeps:
  "j < length labels \<Longrightarrow> labels ! j = Some l \<Longrightarrow>
   expand_cluster eps m X c stack labels ! j = Some l"
proof (induction eps m X c stack labels rule: expand_cluster.induct)
  case (1 eps m X c labels)
  then show ?case by simp
next
  case (2 eps m X c i stack labels)
  show ?case
  proof (cases "i < length labels \<and> labels ! i = None")
    case True
    with "2.prems" have "j \<noteq> i" by auto
    with "2.prems" have "j < length (labels[i := Some c])" "(labels[i := Some c]) ! j = Some l"
      by simp_all
    from "2.IH"(1)[OF True this] True show ?thesis by simp
  next
    case False
    from "2.IH"(2)[OF False "2.prems"] False show ?thesis by auto
  qed
qed

lemma expand_cluster_new:
  "j < length labels \<Longrightarrow> expand_cluster eps m X c stack labels ! j = Some l \<Longrightarrow>
   labels ! j = Some l \<or> l = c"
proof (induction eps m X c stack labels rule: expand_cluster.induct)
  case (1 eps m X c labels)
  then show ?case by simp
next
  case (2 eps m X c i stack labels)
  show ?case
  proof (cases "i < length labels \<and> labels ! i = None")
    case True
    with "2.prems" have "(labels[i := Some c]) ! j = Some l \<or> l = c"
      using "2.IH"(1)[OF True, of ] by simp
    then show ?thesis using True "2.prems"(1) by (cases "j = i") auto
  next
    case False
    with "2.prems" "2.IH"(2)[OF False] show ?thesis by auto
  qed
qed

lemma expand_cluster_stack_labelled:
  "s \<in> set stack \<Longrightarrow> s < length labels \<Longrightarrow> expand_cluster eps m X c stack labels ! s \<noteq> None"
proof (induction eps m X c stack labels rule: expand_cluster.induct)
  case (1 eps m X c labels)
  then show ?case by simp
next
  case (2 eps m X c i stack labels)
  show ?case
  proof (cases "i < length labels \<and> labels ! i = None")
    case True
    let ?labels' = "labels[i := Some c]"
    let ?stack' = "(if is_core eps m X i
            then rev (filter (\<lambda>v. ?labels' ! v = None) (region_query eps X i))
            else []) @ stack"
    have eq: "expand_cluster eps m X c (i # stack) labels = expand_cluster eps m X c ?stack' ?labels'"
      using True by simp
    show ?thesis
    proof (cases "s = i")
      case True
      have "expand_cluster eps m X c ?stack' ?labels' ! i = Some c"
        using \<open>i < length labels \<and> labels ! i = None\<close>
        by (intro expand_cluster_keeps) simp_all
      with eq True show ?thesis by simp
    next
      case False
      with "2.prems" have "s \<in> set ?stack'" "s < length ?labels'" by simp_all
      from "2.IH"(1)[OF True this] eq show ?thesis by simp
    qed
  next
    case False
    then have eq: "expand_cluster eps m X c (i # stack) labels = expand_cluster eps m X c stack labels"
      by auto
    show ?thesis
    proof (cases "s = i")
      case True
      with False "2.prems" obtain l where "labels ! s = Some l" by auto
      from expand_cluster_keeps[OF "2.prems"(2) this] eq show ?thesis by simp
    next
      case False
      with "2.prems" have "s \<in> set stack" by simp
      from "2.IH"(2)[OF \<open>\<not> (i < length labels \<and> labels ! i = None)\<close> this "2.prems"(2)] eq
      show ?thesis by simp
    qed
  qed
qed

lemma supported_mono:
  assumes "supported eps m X labels j"
    and "\<And>k. k < length X \<Longrightarrow> labels ! k \<noteq> None \<Longrightarrow> labels' ! k \<noteq> None"
  shows "supported eps m X labels' j"
  using assms unfolding supported_def by (meson region_query_iff)

lemma expand_inv_skip:
  assumes inv: "expand_inv eps m X labels (i # stack)"
    and skip: "\<not> (i < length labels \<and> labels ! i = None)"
  shows "expand_inv eps m X labels stack"
proof -
  from inv have len: "length labels = length X" and i: "i < length X"
    by (simp_all add: expand_inv_def)
  with skip have labelled: "labels ! i \<noteq> None" by simp
  have "\<forall>j < length X. labels ! j \<noteq> None \<and> is_core eps m X j \<longrightarrow>
          (\<forall>k \<in> set (region_query eps X j). labels ! k \<noteq> None \<or> k \<in> set stack)"
  proof (intro allI impI ballI)
    fix j k
    assume "j < length X" "labels ! j \<noteq> None \<and> is_core eps m X j"
      "k \<in> set (region_query eps X j)"
    with inv have "labels ! k \<noteq> None \<or> k \<in> set (i # stack)"
      unfolding expand_inv_def by blast
    with labelled show "labels ! k \<noteq> None \<or> k \<in> set stack" by auto
  qed
  with inv show ?thesis unfolding expand_inv_def by simp
qed

lemma expand_inv_label:
  fixes c :: nat
  assumes inv: "expand_inv eps m X labels (i # stack)"
    and i: "i < length labels" and unlabelled: "labels ! i = None"
  defines "labels' \<equiv> labels[i := Some c]"
  defines "pushed \<equiv> (if is_core eps m X i
            then rev (filter (\<lambda>v. labels' ! v = None) (region_query eps X i))
            else [])"
  shows "expand_inv eps m X labels' (pushed @ stack)"
proof -
  from inv have len: "length labels = length X" by (simp add: expand_inv_def)
  have keep: "labels' ! k \<noteq> None" if "k < length X" "labels ! k \<noteq> None" for k
    using that i len by (cases "k = i") (simp_all add: labels'_def)
  have at_i: "labels' ! i \<noteq> None" using i by (simp add: labels'_def)
  have other: "labels' ! k = labels ! k" if "k \<noteq> i" for k
    using that by (simp add: labels'_def)
  have sup_i: "supported eps m X labels i"
    using inv unfolding expand_inv_def by simp
  have covered: "labels' ! k \<noteq> None \<or> k \<in> set (pushed @ stack)"
    if j: "j < length X" "labels' ! j \<noteq> None" "is_core eps m X j"
      and k: "k \<in> set (region_query eps X j)" for j k
  proof (cases "j = i")
    case True
    with j k show ?thesis by (auto simp: pushed_def)
  next
    case False
    with j other have "labels ! j \<noteq> None" by simp
    with inv j k have "labels ! k \<noteq> None \<or> k \<in> set (i # stack)"
      unfolding expand_inv_def by blast
    moreover have "k < length X" using k by (simp add: region_query_iff)
    ultimately show ?thesis using keep at_i by auto
  qed
  have labelled_sup: "supported eps m X labels' j" if j: "j < length X" "labels' ! j \<noteq> None" for j
  proof (cases "j = i")
    case True
    with sup_i keep show ?thesis by (auto intro: supported_mono)
  next
    case False
    with j other have "labels ! j \<noteq> None" by simp
    with inv j have "supported eps m X labels j" unfolding expand_inv_def by blast
    with keep show ?thesis by (auto intro: supported_mono)
  qed
  have stack_sup: "s < length X \<and> supported eps m X labels' s" if s: "s \<in> set (pushed @ stack)" for s
  proof (cases "s \<in> set stack")
    case True
    with inv have "s < length X" "supported eps m X labels s"
      unfolding expand_inv_def by simp_all
    with keep show ?thesis by (auto intro: supported_mono)
  next
    case False
    with s have core: "is_core eps m X i" and mem: "s \<in> set (region_query eps X i)"
      by (auto simp: pushed_def split: if_splits)
    from mem have sn: "s < length X" by (simp add: region_query_iff)
    from mem i len have "i \<in> set (region_query eps X s)" by (simp add: region_query_sym)
    with core at_i have "supported eps m X labels' s" unfolding supported_def by blast
    with sn show ?thesis by simp
  qed
  from len have "length labels' = length X" by (simp add: labels'_def)
  with covered labelled_sup stack_sup show ?thesis
    unfolding expand_inv_def by blast
qed

lemma expand_cluster_inv:
  "expand_inv eps m X labels stack \<Longrightarrow>
   expand_inv eps m X (expand_cluster eps m X c stack labels) []"
proof (induction eps m X c stack labels rule: expand_cluster.induct)
  case (1 eps m X c labels)
  then show ?case by simp
next
  case (2 eps m X c i stack labels)
  show ?case
  proof (cases "i < length labels \<and> labels ! i = None")
    case True
    then have "expand_inv eps m X (labels[i := Some c])
             ((if is_core eps m X i
               then rev (filter (\<lambda>v. (labels[i := Some c]) ! v = None) (region_query eps X i))
               else []) @ stack)"
      using expand_inv_label[OF "2.prems"] by simp
    from "2.IH"(1)[OF True this] True show ?thesis by simp
  next
    case False
    from "2.IH"(2)[OF False expand_inv_skip[OF "2.prems" False]] False show ?thesis by auto
  qed
qed

subsection \<open>The outer loop\<close>

lemma fresh_core_neighbours_unlabelled:
  assumes inv: "expand_inv eps m X labels []"
    and m: "m \<le> 3" and eps: "0 \<le> eps"
    and i: "i < length X" "labels ! i = None"
    and k: "k \<in> set (region_query eps X i)" "k \<noteq> i"
  shows "labels ! k = None"
proof (rule ccontr)
  assume labelled: "labels ! k \<noteq> None"
  from k have kn: "k < length X" by (simp add: region_query_iff)
  from k i have ik: "i \<in> set (region_query eps X k)" by (simp add: region_query_sym)
  have core_k: "is_core eps m X k"
  proof (rule ccontr)
    assume not_core: "\<not> is_core eps m X k"
    from inv kn labelled have "supported eps m X labels k" unfolding expand_inv_def by blast
    with not_core obtain k' where k': "k' \<in> set (region_query eps X k)"
      "is_core eps m X k'" "labels ! k' \<noteq> None"
      unfolding supported_def by blast
    from k' not_core have "k' \<noteq> k" by auto
    moreover from k' i have "k' \<noteq> i" by auto
    ultimately have "is_core eps m X k"
      using three_neighbours_core[OF m eps kn ik k'(1)] k(2) by auto
    with not_core show False by simp
  qed
  with inv kn labelled ik have "labels ! i \<noteq> None" unfolding expand_inv_def by fastforce
  with i show False by simp
qed

lemma cluster_size_mono:
  assumes "\<And>j. j < length X \<Longrightarrow> labels ! j = Some l \<Longrightarrow> labels' ! j = Some l"
  shows "cluster_size X labels l \<le> cluster_size X labels' l"
  unfolding cluster_size_def using assms by (intro filter_length_mono) simp

lemma start_cluster:
  assumes inv: "clusters_inv eps m X c labels"
    and m: "m \<le> 3" and eps: "0 \<le> eps"
    and i: "i < length X" "labels ! i = None" "is_core eps m X i"
  shows "clusters_inv eps m X (c + 1) (expand_cluster eps m X c [i] labels)"
proof -
  let ?result = "expand_cluster eps m X c [i] labels"
  let ?labels' = "labels[i := Some c]"
  let ?pushed = "rev (filter (\<lambda>v. ?labels' ! v = None) (region_query eps X i))"
  from inv have einv: "expand_inv eps m X labels []" and len: "length labels = length X"
    by (simp_all add: clusters_inv_def expand_inv_def)
  have unfold: "?result = expand_cluster eps m X c (?pushed @ []) ?labels'"
    using i len by simp
  have "expand_inv eps m X labels [i]"
    using einv i unfolding expand_inv_def supported_def by simp
  then have part1: "expand_inv eps m X ?result []" by (rule expand_cluster_inv)
  have part2: "l < c + 1" if "j < length X" "?result ! j = Some l" for j l
  proof -
    from that len expand_cluster_new[of j labels eps m X c "[i]" l]
    have "labels ! j = Some l \<or> l = c" by simp
    with inv that(1) show ?thesis unfolding clusters_inv_def by fastforce
  qed
  have old: "m \<le> cluster_size X ?result l" if "l < c" for l
  proof -
    from inv that have "m \<le> cluster_size X labels l" unfolding clusters_inv_def by simp
    also have "\<dots> \<le> cluster_size X ?result l"
      using len by (intro cluster_size_mono expand_cluster_keeps) simp_all
    finally show ?thesis .
  qed
  have member: "?result ! k = Some c" if k: "k \<in> set (region_query eps X i)" for k
  proof (cases "k = i")
    case True
    have "expand_cluster eps m X c (?pushed @ []) ?labels' ! i = Some c"
      using i len by (intro expand_cluster_keeps) simp_all
    with unfold True show ?thesis by simp
  next
    case False
    from k have kn: "k < length X" by (simp add: region_query_iff)
    from fresh_core_neighbours_unlabelled[OF einv m eps i(1,2) k False]
    have none: "labels ! k = None" .
    with False have none': "?labels' ! k = None" by simp
    with k have "k \<in> set (?pushed @ [])" by simp
    moreover have "k < length ?labels'" using kn len by simp
    ultimately have "expand_cluster eps m X c (?pushed @ []) ?labels' ! k \<noteq> None"
      by (rule expand_cluster_stack_labelled)
    then obtain l where l: "expand_cluster eps m X c (?pushed @ []) ?labels' ! k = Some l"
      by auto
    from expand_cluster_new[OF \<open>k < length ?labels'\<close> l] none' have "l = c" by simp
    with l unfold show ?thesis by simp
  qed
  have "m \<le> length (region_query eps X i)" using i(3) by (simp add: is_core_def)
  also have "\<dots> \<le> cluster_size X ?result c"
    unfolding cluster_size_def region_query_def
    using member by (intro filter_length_mono) (simp add: region_query_def)
  finally have new: "m \<le> cluster_size X ?result c" .
  have "m \<le> cluster_size X ?result l" if "l < c + 1" for l
    using that old new by (cases "l = c") simp_all
  with part1 part2 show ?thesis unfolding clusters_inv_def by blast
qed

lemma dbscan_inner_inv:
  assumes "m \<le> 3" "0 \<le> eps"
  shows "clusters_inv eps m X num labels \<Longrightarrow> \<forall>i \<in> set todo. i < length X \<Longrightarrow>
         \<exists>num'. clusters_inv eps m X num' (dbscan_inner eps m X todo num labels)"
proof (induction todo arbitrary: num labels)
  case Nil
  then show ?case by auto
next
  case (Cons i todo)
  show ?case
  proof (cases "labels ! i \<noteq> None \<or> \<not> is_core eps m X i")
    case True
    with Cons show ?thesis by simp
  next
    case False
    with Cons.prems have "clusters_inv eps m X (num + 1) (expand_cluster eps m X num [i] labels)"
      using start_cluster[OF _ assms] by simp
    from Cons.IH[OF this] Cons.prems(2) False show ?thesis by simp
  qed
qed

lemma dbscan_labels_inv:
  assumes "m \<le> 3" "0 \<le> eps"
  shows "\<exists>num. clusters_inv eps m X num (dbscan_labels eps m X)"
proof -
  have "clusters_inv eps m X 0 (replicate (length X) None)"
    unfolding clusters_inv_def expand_inv_def by (simp add: region_query_iff)
  from dbscan_inner_inv[OF assms this, of "[0..<length X]"] show ?thesis
    by (simp add: dbscan_labels_def)
qed

lemma dbscan_labels_length: "length (dbscan_labels eps m X) = length X"
proof -
  have "length (dbscan_inner eps m X todo num labels) = length labels" for todo num labels
    by (induction todo arbitrary: num labels) (simp_all add: expand_cluster_length)
  then show ?thesis by (simp add: dbscan_labels_def)
qed

lemma dbscan_cluster_size:
  assumes "m \<le> 3" "0 \<le> eps" "j < length X" "dbscan_labels eps m X ! j = Some c"
  shows "m \<le> cluster_size X (dbscan_labels eps m X) c"
proof -
  from dbscan_labels_inv[OF assms(1,2)] obtain num
    where "clusters_inv eps m X num (dbscan_labels eps m X)" ..
  with assms(3,4) show ?thesis unfolding clusters_inv_def by blast
qed

section \<open>Pattern detection\<close>

lemma label_values_set: "set (label_values labels) = {c. Some c \<in> set labels}"
proof -
  have "set (List.map_filter id labels) = {c. Some c \<in> set labels}"
    by (induction labels) (auto simp: List.map_filter_def)
  then show ?thesis by (simp add: label_values_def)
qed

lemma cluster_members_length:
  "length (cluster_members X labels c) = cluster_size X labels c"
  by (simp add: cluster_members_def cluster_size_def)

lemma cluster_members_set:
  "set (cluster_members X labels c) = {X ! j | j. j < length X \<and> labels ! j = Some c}"
  by (auto simp: cluster_members_def)

lemma pattern_clusters_size:
  assumes "cluster \<in> set (pattern_clusters ts)"
  shows "3 \<le> length cluster"
proof -
  let ?labels = "dbscan_labels 300 3 ts"
  from assms obtain c where c: "Some c \<in> set ?labels" "cluster = cluster_members ts ?labels c"
    by (auto simp: pattern_clusters_def Let_def label_values_set)
  from c(1) obtain j where "j < length ?labels" "?labels ! j = Some c"
    by (auto simp: in_set_conv_nth)
  then have "3 \<le> cluster_size ts ?labels c"
    by (intro dbscan_cluster_size) (simp_all add: dbscan_labels_length)
  with c(2) show ?thesis by (simp add: cluster_members_length)
qed

lemma make_pattern_spec:
  assumes "cluster \<noteq> []"
  shows "make_pattern cluster = Inr (spec_pattern cluster)"
proof (cases cluster)
  case Nil
  with assms show ?thesis by simp
next
  case (Cons x xs)
  have "fold min xs x = Min (set cluster)" "fold max xs x = Max (set cluster)"
    unfolding Cons by (rule fold_min_Min, rule fold_max_Max)
  with Cons show ?thesis by (simp add: make_pattern_def spec_pattern_def)
qed

lemma collect_patterns_spec:
  "\<forall>cluster \<in> set clusters. cluster \<noteq> [] \<Longrightarrow>
   collect_patterns clusters = Inr (map spec_pattern clusters)"
  by (induction clusters) (simp_all add: make_pattern_spec)

lemma collect_pattern_clusters:
  "collect_patterns (pattern_clusters ts) = Inr (map spec_pattern (pattern_clusters ts))"
proof (rule collect_patterns_spec, rule ballI)
  fix cluster assume "cluster \<in> set (pattern_clusters ts)"
  from pattern_clusters_size[OF this] show "cluster \<noteq> []" by auto
qed

lemma np_std_nonneg: "0 \<le> np_std xs"
  unfolding np_std_def
  by (intro real_sqrt_ge_zero divide_nonneg_nonneg sum_list_nonneg) auto

lemma spec_pattern_consistency_pos: "0 < consistency (spec_pattern cluster)"
  using np_std_nonneg[of cluster] by (simp add: spec_pattern_def add_nonneg_pos)

lemma detect_patterns_result:
  assumes "vehicles veh_id = Some hist" "crossings hist \<noteq> []"
  shows "detect_patterns vehicles veh_id
         = Inr (vehicles(veh_id \<mapsto>
                  hist\<lparr>patterns := Some (map spec_pattern (pattern_clusters (map fst (crossings hist))))\<rparr>))"
  using assms by (simp add: detect_patterns_def collect_pattern_clusters)

section \<open>Recording a crossing\<close>

lemma update_vehicle_history_result:
  assumes "get_approach_direction M = Some approach"
  shows "update_vehicle_history M env vehicles veh_id =
         Inr (vehicles(veh_id \<mapsto>
           \<lparr>crossings = crossings_of vehicles veh_id @ [(getTime env, approach veh_id)],
            patterns =
              (if (length (crossings_of vehicles veh_id) + 1) mod 5 = 0
               then Some (map spec_pattern
                      (pattern_clusters (map fst (crossings_of vehicles veh_id) @ [getTime env])))
               else stored_patterns vehicles veh_id)\<rparr>))"
proof (cases "vehicles veh_id")
  case None
  with assms show ?thesis
    by (simp add: update_vehicle_history_def Let_def crossings_of_def stored_patterns_def
        detect_patterns_result)
next
  case (Some hist)
  with assms show ?thesis
    by (cases hist)
      (simp add: update_vehicle_history_def Let_def crossings_of_def stored_patterns_def
        detect_patterns_result)
qed

lemma update_vehicle_history_undefined:
  "get_approach_direction M = None \<Longrightarrow>
   update_vehicle_history M env vehicles veh_id = Inl (AttributeError ''get_approach_direction'')"
  by (simp add: update_vehicle_history_def)

lemma update_preserves_store_inv:
  assumes inv: "store_inv (getTime env) vehicles"
    and upd: "update_vehicle_history M env vehicles veh_id = Inr vehicles'"
  shows "store_inv (getTime env) vehicles'"
proof -
  from upd obtain approach where approach: "get_approach_direction M = Some approach"
    by (cases "get_approach_direction M") (simp_all add: update_vehicle_history_undefined)
  note res = upd[unfolded update_vehicle_history_result[OF approach]]
  have old_times: "fst c \<le> getTime env" if "c \<in> set (crossings_of vehicles veh_id)" for c
    using that inv unfolding store_inv_def crossings_of_def
    by (cases "vehicles veh_id") auto
  have old_pats: "0 \<le> consistency p"
    if "stored_patterns vehicles veh_id = Some ps" "p \<in> set ps" for ps p
    using that inv unfolding store_inv_def stored_patterns_def
    by (cases "vehicles veh_id") auto
  show ?thesis
    unfolding store_inv_def
  proof (intro allI impI)
    fix v hist assume v: "vehicles' v = Some hist"
    show "(\<forall>c \<in> set (crossings hist). fst c \<le> getTime env)
          \<and> (\<forall>ps. patterns hist = Some ps \<longrightarrow> (\<forall>p \<in> set ps. 0 \<le> consistency p))"
    proof (cases "v = veh_id")
      case False
      with v res have "vehicles v = Some hist" by auto
      with inv show ?thesis unfolding store_inv_def by blast
    next
      case True
      with v res have hist: "hist = \<lparr>crossings = crossings_of vehicles veh_id @ [(getTime env, approach veh_id)],
            patterns =
              (if (length (crossings_of vehicles veh_id) + 1) mod 5 = 0
               then Some (map spec_pattern
                      (pattern_clusters (map fst (crossings_of vehicles veh_id) @ [getTime env])))
               else stored_patterns vehicles veh_id)\<rparr>" by auto
      have "\<forall>c \<in> set (crossings hist). fst c \<le> getTime env"
        using old_times by (auto simp: hist)
      moreover have "\<forall>ps. patterns hist = Some ps \<longrightarrow> (\<forall>p \<in> set ps. 0 \<le> consistency p)"
        using old_pats spec_pattern_consistency_pos
        by (auto simp: hist less_imp_le split: if_splits)
      ultimately show ?thesis by simp
    qed
  qed
qed

lemma store_inv_later: "store_inv now vehicles \<Longrightarrow> now \<le> later \<Longrightarrow> store_inv later vehicles"
  unfolding store_inv_def by (meson order_trans)

lemma reachable_store_inv: "reachable_store M now vehicles \<Longrightarrow> store_inv now vehicles"
proof (induction rule: reachable_store.induct)
  case (initial now)
  then show ?case by (simp add: store_inv_def)
next
  case (clock now vehicles later)
  then show ?case by (auto intro: store_inv_later)
next
  case (recorded now vehicles env veh_id vehicles')
  then show ?case using update_preserves_store_inv by blast
qed

lemma label_values_distinct: "distinct (label_values labels)"
  by (simp add: label_values_def)

text \<open>
  C7. Pattern detection for a vehicle with at least one recorded crossing (it runs only
  after a crossing was appended) clusters all of its crossing timestamps with radius 300
  and minimum size 3 and does not fail. The stored pattern list is replaced by one
  pattern per cluster label found (crossings are kept): each such cluster consists of the
  timestamps carrying that label, so a noise point belongs to none, it has at least 3
  members, and its pattern has \<open>peak_start\<close> the minimum, \<open>peak_end\<close> the maximum and
  \<open>consistency = 1 / (population standard deviation + 1e-6)\<close>. When every point is noise
  the new list is empty.
\<close>

theorem detect_patterns_clusters:
  assumes "vehicles veh_id = Some hist" "crossings hist \<noteq> []"
  defines "ts \<equiv> map fst (crossings hist)"
  defines "labels \<equiv> dbscan_labels 300 3 ts"
  defines "ps \<equiv> map (\<lambda>c. spec_pattern (cluster_members ts labels c)) (label_values labels)"
  shows "detect_patterns vehicles veh_id = Inr (vehicles(veh_id \<mapsto> hist\<lparr>patterns := Some ps\<rparr>))
       \<and> set (label_values labels) = {c. Some c \<in> set labels}
       \<and> distinct (label_values labels)
       \<and> (\<forall>c \<in> set (label_values labels).
             3 \<le> length (cluster_members ts labels c)
             \<and> set (cluster_members ts labels c) = {ts ! j | j. j < length ts \<and> labels ! j = Some c}
             \<and> peak_start (spec_pattern (cluster_members ts labels c))
                 = Min (set (cluster_members ts labels c))
             \<and> peak_end (spec_pattern (cluster_members ts labels c))
                 = Max (set (cluster_members ts labels c))
             \<and> consistency (spec_pattern (cluster_members ts labels c))
                 = 1 / (sqrt ((\<Sum>x \<leftarrow> cluster_members ts labels c.
                                (x - sum_list (cluster_members ts labels c)
                                     / real (length (cluster_members ts labels c)))\<^sup>2)
                              / real (length (cluster_members ts labels c)))
                        + 1 / 1000000))
       \<and> ((\<forall>l \<in> set labels. l = None) \<longrightarrow> ps = [])"
proof -
  have clusters: "pattern_clusters ts = map (cluster_members ts labels) (label_values labels)"
    by (simp add: pattern_clusters_def labels_def Let_def)
  have "detect_patterns vehicles veh_id
        = Inr (vehicles(veh_id \<mapsto> hist\<lparr>patterns := Some (map spec_pattern (pattern_clusters ts))\<rparr>))"
    using detect_patterns_result[of vehicles veh_id hist] assms(1,2) by (simp add: ts_def)
  then have first: "detect_patterns vehicles veh_id
        = Inr (vehicles(veh_id \<mapsto> hist\<lparr>patterns := Some ps\<rparr>))"
    by (simp add: clusters ps_def comp_def)
  have size: "3 \<le> length (cluster_members ts labels c)" if "c \<in> set (label_values labels)" for c
    using that pattern_clusters_size[of "cluster_members ts labels c" ts] by (simp add: clusters)
  have noise: "ps = []" if "\<forall>l \<in> set labels. l = None"
  proof -
    from that have "set (label_values labels) = {}" by (auto simp: label_values_set)
    then show ?thesis by (simp add: ps_def)
  qed
  show ?thesis
    using first size noise
    by (simp add: label_values_set label_values_distinct cluster_members_set spec_pattern_def
        np_std_def np_mean_def)
qed

theorem detect_patterns_clusters_witness:
  "detect_patterns (example_store [0, 300, 600, 900, 1200]) ''car1''
     = Inr ((example_store [0, 300, 600, 900, 1200])(''car1'' \<mapsto>
          \<lparr>crossings = map (\<lambda>t. (t, ''NS'')) [0, 300, 600, 900, 1200],
           patterns = Some [spec_pattern [0, 300, 600, 900, 1200]]\<rparr>))
   \<and> label_values (dbscan_labels 300 3 [0, 300, 600, 900, 1200]) = [0]
   \<and> 3 \<le> length (cluster_members [0, 300, 600, 900, 1200]
                     (dbscan_labels 300 3 [0, 300, 600, 900, 1200]) 0)
   \<and> peak_start (spec_pattern [0, 300, 600, 900, 1200]) = 0
   \<and> peak_end (spec_pattern [0, 300, 600, 900, 1200]) = 1200"
proof -
  have labels: "dbscan_labels 300 3 [0, 300, 600, 900, 1200]
                = [Some 0, Some 0, Some 0, Some 0, Some 0]"
    by code_simp
  have found: "label_values [Some 0, Some 0, Some 0, Some 0, Some (0::nat)] = [0]"
    by code_simp
  have members: "cluster_members [0, 300, 600, 900, 1200]
                   [Some 0, Some 0, Some 0, Some 0, Some (0::nat)] 0 = [0, 300, 600, 900, 1200]"
    by code_simp
  have stored: "example_store [0, 300, 600, 900, 1200] ''car1''
                = Some \<lparr>crossings = map (\<lambda>t. (t, ''NS'')) [0, 300, 600, 900, 1200], patterns = None\<rparr>"
    by (simp add: example_store_def)
  from stored
    detect_patterns_clusters[of "example_store [0, 300, 600, 900, 1200]" "''car1''"
      "\<lparr>crossings = map (\<lambda>t. (t, ''NS'')) [0, 300, 600, 900, 1200], patterns = None\<rparr>"]
  show ?thesis
    by (simp add: labels found members)
qed

section \<open>The crossing history is append-only\<close>

lemma update_is_append_then_detect:
  fixes vehicles :: vehicle_store and veh_id :: string and env :: traci
  assumes "get_approach_direction M = Some approach"
  defines "appended \<equiv> vehicles(veh_id \<mapsto>
             \<lparr>crossings = crossings_of vehicles veh_id @ [(getTime env, approach veh_id)],
              patterns = stored_patterns vehicles veh_id\<rparr>)"
  shows "update_vehicle_history M env vehicles veh_id =
         (if length (crossings_of appended veh_id) mod 5 = 0
          then detect_patterns appended veh_id else Inr appended)"
proof (cases "vehicles veh_id")
  case None
  with assms(1) show ?thesis
    by (simp add: update_vehicle_history_def Let_def crossings_of_def stored_patterns_def
        appended_def)
next
  case (Some hist)
  with assms(1) show ?thesis
    by (cases hist)
      (simp add: update_vehicle_history_def Let_def crossings_of_def stored_patterns_def
        appended_def)
qed

lemma update_appends_crossing:
  assumes "update_vehicle_history M env vehicles veh_id = Inr vehicles'"
  shows "(\<exists>direction. crossings_of vehicles' veh_id
                         = crossings_of vehicles veh_id @ [(getTime env, direction)])
         \<and> (\<forall>other. other \<noteq> veh_id \<longrightarrow> vehicles' other = vehicles other)"
proof -
  from assms obtain approach where approach: "get_approach_direction M = Some approach"
    by (cases "get_approach_direction M") (simp_all add: update_vehicle_history_undefined)
  from assms[unfolded update_vehicle_history_result[OF approach]]
  show ?thesis by (auto simp: crossings_of_def)
qed

lemma detect_patterns_keeps_crossings:
  assumes "detect_patterns vehicles veh_id = Inr vehicles'"
  shows "crossings_of vehicles' v = crossings_of vehicles v"
proof (cases "vehicles veh_id")
  case None
  with assms show ?thesis by (simp add: detect_patterns_def)
next
  case (Some hist)
  show ?thesis
  proof (cases "crossings hist = []")
    case True
    with assms Some show ?thesis by (simp add: detect_patterns_def)
  next
    case False
    from assms[unfolded detect_patterns_result[of vehicles veh_id hist, OF Some False]] Some
    show ?thesis by (auto simp: crossings_of_def)
  qed
qed

lemma control_logic_keeps_store:
  "control_logic M env vehicles = Inr (vehicles', cmds) \<Longrightarrow> vehicles' = vehicles"
  by (auto simp: control_logic_def split: option.splits sum.splits if_splits)

lemma few_crossings_no_patterns:
  "reachable_store M now vehicles \<Longrightarrow> length (crossings_of vehicles veh_id) < 5 \<Longrightarrow>
   stored_patterns vehicles veh_id = None"
proof (induction arbitrary: veh_id rule: reachable_store.induct)
  case (initial now)
  then show ?case by (simp add: stored_patterns_def)
next
  case (clock now vehicles later)
  then show ?case by simp
next
  case (recorded now vehicles env v vehicles')
  from recorded.hyps(3) obtain approach where approach: "get_approach_direction M = Some approach"
    by (cases "get_approach_direction M") (simp_all add: update_vehicle_history_undefined)
  note res = recorded.hyps(3)[unfolded update_vehicle_history_result[OF approach]]
  show ?case
  proof (cases "veh_id = v")
    case False
    with res have "vehicles' veh_id = vehicles veh_id" by auto
    with recorded.IH[of veh_id] recorded.prems show ?thesis
      by (simp add: crossings_of_def stored_patterns_def)
  next
    case True
    with res recorded.prems have short: "length (crossings_of vehicles v) + 1 < 5"
      by (auto simp: crossings_of_def)
    then have "(length (crossings_of vehicles v) + 1) mod 5 \<noteq> 0" by simp
    with res True have "stored_patterns vehicles' veh_id = stored_patterns vehicles v"
      by (auto simp: stored_patterns_def)
    with recorded.IH[of v] short show ?thesis by simp
  qed
qed

lemma pattern_clusters_example:
  "pattern_clusters [0, 300, 600, 900, 1200] = [[0, 300, 600, 900, 1200]]"
proof -
  have labels: "dbscan_labels 300 3 [0, 300, 600, 900, 1200]
                = [Some 0, Some 0, Some 0, Some 0, Some 0]"
    by code_simp
  have found: "label_values [Some 0, Some 0, Some 0, Some 0, Some (0::nat)] = [0]"
    by code_simp
  have members: "cluster_members [0, 300, 600, 900, 1200]
                   [Some 0, Some 0, Some 0, Some 0, Some (0::nat)] 0 = [0, 300, 600, 900, 1200]"
    by code_simp
  show ?thesis by (simp add: pattern_clusters_def labels found members)
qed

lemma example_store_observed:
  "crossings_of (example_store ts) ''car1'' = map (\<lambda>t. (t, ''NS'')) ts"
  "stored_patterns (example_store ts) ''car1'' = None"
  by (simp_all add: example_store_def crossings_of_def stored_patterns_def)

lemma example_approach:
  "get_approach_direction example_methods
   = Some (\<lambda>veh_id. if veh_id = ''east1'' \<or> veh_id = ''east2'' then ''EW'' else ''NS'')"
  by (simp add: example_methods_def)

lemma example_tick_time: "getTime (example_tick detected now phase next_switch) = now"
  by (simp add: example_tick_def)

lemma example_store_first: "reachable_store example_methods 0 (example_store [0])"
proof -
  have "update_vehicle_history example_methods (example_tick [] 0 0 0) Map.empty ''car1''
        = Inr (example_store [0])"
    by (simp add: update_vehicle_history_result[OF example_approach] crossings_of_def
        stored_patterns_def example_store_def example_tick_time)
  moreover have "reachable_store example_methods 0 Map.empty"
    by (rule reachable_store.initial)
  ultimately show ?thesis
    using reachable_store.recorded[where M = example_methods and now = 0
        and vehicles = Map.empty and env = "example_tick [] 0 0 0" and veh_id = "''car1''"
        and vehicles' = "example_store [0]"]
    by (simp add: example_tick_time)
qed

text \<open>
  C8. Recording a crossing appends one crossing at the current time and then runs
  \<open>_detect_patterns\<close> exactly when the new crossing count is a multiple of 5 (the count is
  positive after the append); it changes no other vehicle. The crossings already recorded
  stay as a prefix: neither recording, nor pattern detection, nor a control tick reorders
  or removes a crossing. In every store built by recording crossings, a vehicle with fewer
  than 5 crossings has no pattern list.
\<close>

theorem update_vehicle_history_appends:
  "(\<forall>approach. get_approach_direction M = Some approach \<longrightarrow>
      update_vehicle_history M env vehicles veh_id =
        (if (length (crossings_of vehicles veh_id) + 1) mod 5 = 0
         then detect_patterns
                (vehicles(veh_id \<mapsto>
                   \<lparr>crossings = crossings_of vehicles veh_id @ [(getTime env, approach veh_id)],
                    patterns = stored_patterns vehicles veh_id\<rparr>)) veh_id
         else Inr (vehicles(veh_id \<mapsto>
                   \<lparr>crossings = crossings_of vehicles veh_id @ [(getTime env, approach veh_id)],
                    patterns = stored_patterns vehicles veh_id\<rparr>))))
   \<and> (\<forall>vehicles'. update_vehicle_history M env vehicles veh_id = Inr vehicles' \<longrightarrow>
         (\<exists>direction. crossings_of vehicles' veh_id
                         = crossings_of vehicles veh_id @ [(getTime env, direction)])
         \<and> (\<forall>other. other \<noteq> veh_id \<longrightarrow> vehicles' other = vehicles other))
   \<and> (\<forall>vehicles' v. detect_patterns vehicles veh_id = Inr vehicles' \<longrightarrow>
         crossings_of vehicles' v = crossings_of vehicles v)
   \<and> (\<forall>vehicles' cmds. control_logic M env vehicles = Inr (vehicles', cmds) \<longrightarrow>
         vehicles' = vehicles)
   \<and> (\<forall>now. reachable_store M now vehicles \<longrightarrow> length (crossings_of vehicles veh_id) < 5 \<longrightarrow>
         stored_patterns vehicles veh_id = None)"
proof -
  have "update_vehicle_history M env vehicles veh_id =
        (if (length (crossings_of vehicles veh_id) + 1) mod 5 = 0
         then detect_patterns
                (vehicles(veh_id \<mapsto>
                   \<lparr>crossings = crossings_of vehicles veh_id @ [(getTime env, approach veh_id)],
                    patterns = stored_patterns vehicles veh_id\<rparr>)) veh_id
         else Inr (vehicles(veh_id \<mapsto>
                   \<lparr>crossings = crossings_of vehicles veh_id @ [(getTime env, approach veh_id)],
                    patterns = stored_patterns vehicles veh_id\<rparr>)))"
    if "get_approach_direction M = Some approach" for approach
    using update_is_append_then_detect[OF that, where vehicles = vehicles and veh_id = veh_id and env = env]
    by (simp add: crossings_of_def)
  then show ?thesis
    using update_appends_crossing detect_patterns_keeps_crossings control_logic_keeps_store
      few_crossings_no_patterns
    by blast
qed

theorem update_vehicle_history_appends_witness:
  "get_approach_direction example_methods \<noteq> None
   \<and> (\<exists>vehicles'.
         update_vehicle_history example_methods (example_tick [] 1200 0 0)
           (example_store [0, 300, 600, 900]) ''car1'' = Inr vehicles'
         \<and> crossings_of vehicles' ''car1'' = map (\<lambda>t. (t, ''NS'')) [0, 300, 600, 900, 1200]
         \<and> stored_patterns vehicles' ''car1'' = Some [spec_pattern [0, 300, 600, 900, 1200]])
   \<and> reachable_store example_methods 0 (example_store [0])
   \<and> length (crossings_of (example_store [0]) ''car1'') < 5
   \<and> stored_patterns (example_store [0]) ''car1'' = None"
proof -
  let ?env = "example_tick [] 1200 0 0"
  let ?store = "example_store [0, 300, 600, 900]"
  let ?appended = "?store(''car1'' \<mapsto>
        \<lparr>crossings = map (\<lambda>t. (t, ''NS'')) [0, 300, 600, 900, 1200], patterns = None\<rparr>)"
  have "update_vehicle_history example_methods ?env ?store ''car1''
        = detect_patterns ?appended ''car1''"
    using update_vehicle_history_appends[of example_methods ?env ?store "''car1''"]
    by (simp add: example_approach example_store_observed example_tick_time)
  also have "\<dots> = Inr (?appended(''car1'' \<mapsto>
        \<lparr>crossings = map (\<lambda>t. (t, ''NS'')) [0, 300, 600, 900, 1200],
         patterns = Some [spec_pattern [0, 300, 600, 900, 1200]]\<rparr>))"
    using detect_patterns_result[of ?appended "''car1''"
          "\<lparr>crossings = map (\<lambda>t. (t, ''NS'')) [0, 300, 600, 900, 1200], patterns = None\<rparr>"]
    by (simp add: pattern_clusters_example)
  finally have recorded: "\<exists>vehicles'.
         update_vehicle_history example_methods ?env ?store ''car1'' = Inr vehicles'
         \<and> crossings_of vehicles' ''car1'' = map (\<lambda>t. (t, ''NS'')) [0, 300, 600, 900, 1200]
         \<and> stored_patterns vehicles' ''car1'' = Some [spec_pattern [0, 300, 600, 900, 1200]]"
    by (simp add: crossings_of_def stored_patterns_def)
  have "stored_patterns (example_store [0]) ''car1'' = None"
    using update_vehicle_history_appends[of example_methods ?env "example_store [0]" "''car1''"]
      example_store_first
    by (simp add: example_store_observed)
  with recorded example_store_first show ?thesis
    by (simp add: example_approach example_store_observed)
qed

section \<open>The priority formula\<close>

text \<open>
  C5. In a store whose crossing times are not in the future and whose pattern
  consistencies are non-negative (every store built by recording crossings is one, see
  \<open>reachable_store_inv\<close>), \<open>calculate_priority\<close> raises nothing and returns 0 for a vehicle
  without crossings, and otherwise
  \<open>0.4 * ln (1 + count) + 0.3 * recency + 0.3 * consistency\<close>, where consistency is the
  largest pattern consistency divided by 1 plus the smallest distance from now to a
  pattern's \<open>peak_start\<close>, or 0.5 without patterns. The result is a non-negative real.
\<close>

theorem calculate_priority_formula:
  assumes "store_inv (getTime env) vehicles"
  shows "calculate_priority env vehicles veh_id
           = Inr (spec_priority (getTime env) (crossings_of vehicles veh_id)
                    (patterns_of vehicles veh_id))
         \<and> 0 \<le> spec_priority (getTime env) (crossings_of vehicles veh_id)
                  (patterns_of vehicles veh_id)
         \<and> (crossings_of vehicles veh_id = [] \<longrightarrow>
               calculate_priority env vehicles veh_id = Inr 0)"
  using calculate_priority_spec[OF assms, of veh_id] spec_priority_store_nonneg[OF assms, of veh_id]
  by (simp add: spec_priority_def)

lemma example_store_inv: "0 \<le> now \<Longrightarrow> store_inv now (example_store [0])"
  using example_store_first reachable_store.clock reachable_store_inv by blast

lemma example_store_with_pattern_inv: "0 \<le> now \<Longrightarrow> store_inv now example_store_with_pattern"
  by (simp add: store_inv_def example_store_with_pattern_def)

lemma example_store_with_pattern_observed:
  "crossings_of example_store_with_pattern ''car1'' = [(0, ''NS'')]"
  "patterns_of example_store_with_pattern ''car1''
   = [\<lparr>peak_start = 0, peak_end = 0, consistency = 1\<rparr>]"
  "crossings_of example_store_with_pattern ''east1'' = []"
  "patterns_of example_store_with_pattern ''east1'' = []"
  by (simp_all add: crossings_of_def patterns_of_def example_store_with_pattern_def)

theorem calculate_priority_formula_witness:
  "store_inv 3600 (example_store [0])
   \<and> calculate_priority (example_tick [] 3600 0 0) (example_store [0]) ''car1''
       = Inr (0.4 * ln 2 + 0.3)
   \<and> calculate_priority (example_tick [] 3600 0 0) (example_store [0]) ''car2'' = Inr 0
   \<and> store_inv 3600 example_store_with_pattern
   \<and> calculate_priority (example_tick [] 3600 0 0) example_store_with_pattern ''car1''
       = Inr (0.4 * ln 2 + 0.15 + 0.3 * (1 / 3601))"
proof -
  have inv: "store_inv (getTime (example_tick [] 3600 0 0)) (example_store [0])"
    by (simp add: example_tick_time example_store_inv)
  have inv': "store_inv (getTime (example_tick [] 3600 0 0)) example_store_with_pattern"
    by (simp add: example_tick_time example_store_with_pattern_inv)
  have none: "patterns_of (example_store [0]) ''car1'' = []"
    "crossings_of (example_store [0]) ''car2'' = []"
    by (simp_all add: patterns_of_def crossings_of_def example_store_def)
  from calculate_priority_formula[OF inv, of "''car1''"]
    calculate_priority_formula[OF inv, of "''car2''"]
    calculate_priority_formula[OF inv', of "''car1''"] inv inv'
  show ?thesis
    by (simp add: example_tick_time example_store_observed none spec_priority_def
        spec_consistency_def example_store_with_pattern_observed)
qed

section \<open>The direction weight\<close>

lemma priority_sum_spec:
  assumes "get_approach_direction M = Some approach" "store_inv (getTime env) vehicles"
  shows "priority_sum M env vehicles direction detected total_weight
         = Inr (total_weight
                + (\<Sum>veh_id \<leftarrow> filter (\<lambda>veh_id. approach veh_id = direction) detected.
                     spec_priority (getTime env) (crossings_of vehicles veh_id)
                       (patterns_of vehicles veh_id)))"
  using assms
  by (induction detected arbitrary: total_weight) (simp_all add: calculate_priority_spec)

lemma density_count_spec:
  assumes "get_approach_direction M = Some approach"
  shows "density_count M direction detected
         = Inr (length (filter (\<lambda>veh_id. approach veh_id = direction) detected))"
  using assms by (induction detected) simp_all

lemma has_patterns_iff: "has_patterns vehicles veh_id \<longleftrightarrow> patterns_of vehicles veh_id \<noteq> []"
  by (simp add: has_patterns_def patterns_of_def split: option.splits)

lemma get_direction_weight_spec:
  assumes "get_approach_direction M = Some approach" "store_inv (getTime env) vehicles"
  shows "get_direction_weight M env vehicles direction
         = Inr (spec_direction_weight approach env vehicles direction)"
  using assms
  by (simp add: get_direction_weight_def spec_direction_weight_def Let_def
      priority_sum_spec density_count_spec list_ex_iff has_patterns_iff density_weight_def
      time_boost_factor_def)


lemma get_direction_weight_empty:
  "detect_vehicles env = [] \<Longrightarrow> get_direction_weight M env vehicles direction = Inr 0"
  by (simp add: get_direction_weight_def)


lemma detect_example: "detect_vehicles (example_tick detected now phase next_switch) = detected"
  by (simp add: detect_vehicles_def example_tick_def)


section \<open>The control tick\<close>


lemma find_absent: "\<forall>y \<in> set xs. \<not> P y \<Longrightarrow> find P xs = None"
  by (simp add: find_None_iff)

lemma phase_duration_clamp:
  "total_weight \<noteq> 0 \<Longrightarrow>
   phase_duration weight total_weight
   = Inr (spec_clamp (30 * (0.5 + weight / total_weight)) 15 60)"
  by (simp add: phase_duration_def py_truediv_def spec_clamp_def max_def min_def)


lemma phase_durations_clamp:
  "w_ns + w_ew \<noteq> 0 \<Longrightarrow>
   phase_durations [(''NS'', w_ns), (''EW'', w_ew)] (w_ns + w_ew)
   = Inr [(''NS'', spec_clamp (30 * (0.5 + w_ns / (w_ns + w_ew))) 15 60),
          (''EW'', spec_clamp (30 * (0.5 + w_ew / (w_ns + w_ew))) 15 60)]"
  by (simp add: phase_duration_clamp)

lemma control_logic_no_emergency:
  assumes "\<forall>veh_id \<in> set (detect_vehicles env). getTypeID env veh_id \<noteq> ''emergency''"
    and "get_direction_weight M env vehicles ''NS'' = Inr w_ns"
    and "get_direction_weight M env vehicles ''EW'' = Inr w_ew"
  shows "control_logic M env vehicles
         = (case decide_phase M env w_ns w_ew of
              Inl e \<Rightarrow> Inl e
            | Inr cmds \<Rightarrow> Inr (vehicles, cmds))"
  using assms by (simp add: control_logic_def find_absent)

lemma decide_phase_zero: "w_ns + w_ew \<le> 0 \<Longrightarrow> decide_phase M env w_ns w_ew = Inr []"
  by (simp add: decide_phase_def)

lemma decide_phase_positive:
  fixes env :: traci and w_ns w_ew :: real
  assumes "0 < w_ns + w_ew" "get_current_direction M = Some current"
  defines "dur \<equiv> \<lambda>w. spec_clamp (30 * (0.5 + w / (w_ns + w_ew))) 15 60"
  defines "remaining \<equiv> getNextSwitch env - getTime env"
  shows "decide_phase M env w_ns w_ew =
         (if current (getPhase env) = ''NS'' then
            Inr (if remaining < dur w_ns then [SetPhaseDuration (dur w_ns - remaining)] else [])
          else if current (getPhase env) = ''EW'' then
            Inr (if remaining < dur w_ew then [SetPhaseDuration (dur w_ew - remaining)] else [])
          else if set_phase_for_direction_defined M then
            Inr [SetPhaseForDirection (if w_ns < w_ew then ''EW'' else ''NS'')]
          else Inl (AttributeError ''set_phase_for_direction''))"
proof -
  from assms(1) have "w_ns + w_ew \<noteq> 0" by simp
  note durs = phase_durations_clamp[OF this]
  show ?thesis
    using assms(1,2)
    by (simp add: decide_phase_def durs directions_def dur_def remaining_def Let_def
        del: phase_durations.simps)
qed


lemma example_current:
  "get_current_direction example_methods
   = Some (\<lambda>phase. if phase = 0 then ''NS'' else if phase = 2 then ''EW'' else ''yellow'')"
  "handle_emergency_defined example_methods" "set_phase_for_direction_defined example_methods"
  by (simp_all add: example_methods_def)

lemma example_tick_fields:
  "getPhase (example_tick detected now phase next_switch) = phase"
  "getNextSwitch (example_tick detected now phase next_switch) = next_switch"
  "getTypeID (example_tick detected now phase next_switch) veh_id
   = (if veh_id = ''ambulance'' then ''emergency'' else ''car'')"
  by (simp_all add: example_tick_def)

lemma store_inv_empty: "store_inv now Map.empty"
  by (simp add: store_inv_def)

lemma example_weights:
  "get_direction_weight example_methods (example_tick [''car1'', ''east1'', ''east2''] now phase next_switch)
     Map.empty ''NS'' = Inr 0.3"
  "get_direction_weight example_methods (example_tick [''car1'', ''east1'', ''east2''] now phase next_switch)
     Map.empty ''EW'' = Inr 0.6"
  "get_direction_weight example_methods (example_tick [''car1''] now phase next_switch)
     Map.empty ''NS'' = Inr 0.3"
  "get_direction_weight example_methods (example_tick [''car1''] now phase next_switch)
     Map.empty ''EW'' = Inr 0"
  by (simp_all add: get_direction_weight_spec[OF example_approach store_inv_empty]
      spec_direction_weight_def detect_example spec_priority_def crossings_of_def patterns_of_def)












text \<open>
  C10. The class as written defines none of \<open>get_approach_direction\<close>, \<open>handle_emergency\<close>,
  \<open>get_current_direction\<close> and \<open>set_phase_for_direction\<close>. With that class, on every tick
  with a detected vehicle \<open>control_logic\<close> raises AttributeError (for \<open>handle_emergency\<close>
  when an emergency vehicle is detected, for \<open>get_approach_direction\<close> otherwise) and
  \<open>get_direction_weight\<close> raises AttributeError for \<open>get_approach_direction\<close>;
  \<open>update_vehicle_history\<close> always raises it. A tick completes, with no command and
  weight 0, only when no vehicle is detected.
\<close>

theorem undefined_helpers_raise:
  "(detect_vehicles env \<noteq> [] \<longrightarrow>
      control_logic source_methods env vehicles
        = Inl (AttributeError
                 (if \<exists>veh_id \<in> set (detect_vehicles env). getTypeID env veh_id = ''emergency''
                  then ''handle_emergency'' else ''get_approach_direction''))
      \<and> get_direction_weight source_methods env vehicles direction
          = Inl (AttributeError ''get_approach_direction''))
   \<and> (detect_vehicles env = [] \<longrightarrow>
         control_logic source_methods env vehicles = Inr (vehicles, [])
         \<and> get_direction_weight source_methods env vehicles direction = Inr 0)
   \<and> update_vehicle_history source_methods env vehicles veh_id
       = Inl (AttributeError ''get_approach_direction'')"
proof -
  have weight: "get_direction_weight source_methods env vehicles d
                = Inl (AttributeError ''get_approach_direction'')"
    if "detect_vehicles env \<noteq> []" for d
    using that
    by (cases "detect_vehicles env") (simp_all add: get_direction_weight_def source_methods_def)
  have tick: "control_logic source_methods env vehicles
        = Inl (AttributeError
                 (if \<exists>veh_id \<in> set (detect_vehicles env). getTypeID env veh_id = ''emergency''
                  then ''handle_emergency'' else ''get_approach_direction''))"
    if ne: "detect_vehicles env \<noteq> []"
  proof (cases "find (\<lambda>veh_id. getTypeID env veh_id = ''emergency'') (detect_vehicles env)")
    case None
    then have "\<not> (\<exists>veh_id \<in> set (detect_vehicles env). getTypeID env veh_id = ''emergency'')"
      by (simp add: find_None_iff)
    with None weight[OF ne] show ?thesis by (simp add: control_logic_def)
  next
    case (Some v)
    then have "\<exists>veh_id \<in> set (detect_vehicles env). getTypeID env veh_id = ''emergency''"
      by (auto simp: find_Some_iff)
    with Some show ?thesis by (simp add: control_logic_def source_methods_def)
  qed
  have empty: "control_logic source_methods env vehicles = Inr (vehicles, [])"
    if "detect_vehicles env = []"
    using that by (simp add: control_logic_def get_direction_weight_empty decide_phase_zero)
  have "update_vehicle_history source_methods env vehicles veh_id
       = Inl (AttributeError ''get_approach_direction'')"
    by (simp add: update_vehicle_history_undefined source_methods_def)
  with weight tick empty get_direction_weight_empty show ?thesis by simp
qed

theorem undefined_helpers_raise_witness:
  "detect_vehicles (example_tick [''car1''] 100 0 150) \<noteq> []
   \<and> control_logic source_methods (example_tick [''car1''] 100 0 150) Map.empty
       = Inl (AttributeError ''get_approach_direction'')
   \<and> control_logic source_methods (example_tick [''ambulance''] 100 0 150) Map.empty
       = Inl (AttributeError ''handle_emergency'')
   \<and> get_direction_weight source_methods (example_tick [''car1''] 100 0 150) Map.empty ''NS''
       = Inl (AttributeError ''get_approach_direction'')
   \<and> detect_vehicles (example_tick [] 100 0 150) = []
   \<and> control_logic source_methods (example_tick [] 100 0 150) Map.empty = Inr (Map.empty, [])"
  using undefined_helpers_raise[of "example_tick [''car1''] 100 0 150" Map.empty "''NS''"]
    undefined_helpers_raise[of "example_tick [''ambulance''] 100 0 150" Map.empty "''NS''"]
    undefined_helpers_raise[of "example_tick [] 100 0 150" Map.empty "''NS''"]
  by (simp add: detect_example example_tick_fields)

text \<open>
  C1 at a concrete tick. With one ordinary vehicle detected and an empty store, a tick of
  the class completed with helper methods computes the weights and switches the phase,
  and the store it leaves is still empty: no crossing was recorded for the detected
  vehicle. The class as written raises AttributeError on the same tick.
\<close>

theorem control_logic_records_no_crossing:
  "detect_vehicles (example_tick [''car1''] 100 1 150) = [''car1'']
   \<and> control_logic example_methods (example_tick [''car1''] 100 1 150) Map.empty
       = Inr (Map.empty, [SetPhaseForDirection ''NS''])
   \<and> crossings_of Map.empty ''car1'' = []
   \<and> control_logic source_methods (example_tick [''car1''] 100 1 150) Map.empty
       = Inl (AttributeError ''get_approach_direction'')"
proof -
  have no_emergency: "\<forall>veh_id \<in> set (detect_vehicles (example_tick [''car1''] 100 1 150)).
      getTypeID (example_tick [''car1''] 100 1 150) veh_id \<noteq> ''emergency''"
    by (simp add: detect_example example_tick_fields)
  have "control_logic example_methods (example_tick [''car1''] 100 1 150) Map.empty
        = Inr (Map.empty, [SetPhaseForDirection ''NS''])"
    by (simp add: control_logic_no_emergency[OF no_emergency example_weights(3,4)]
        decide_phase_positive[OF _ example_current(1)] example_tick_fields example_current)
  moreover have "control_logic source_methods (example_tick [''car1''] 100 1 150) Map.empty
       = Inl (AttributeError ''get_approach_direction'')"
    by (simp add: control_logic_def detect_example example_tick_fields get_direction_weight_def
        source_methods_def)
  ultimately show ?thesis by (simp add: detect_example crossings_of_def)
qed

end
